theory Spec2Isabelle
  imports Main
begin

section \<open>Diff hunks and line remapping (git.ts)\<close>

text \<open>
  Line numbers and hunk counts are JavaScript numbers that only ever hold integers
  here (they come from \<^verbatim>\<open>parseInt\<close> and from persisted line pairs); they are
  modelled as \<^typ>\<open>int\<close>.
\<close>

record LineMapping =
  oldStart :: int
  oldCount :: int
  newStart :: int
  newCount :: int

text \<open>
  The \<^verbatim>\<open>for\<close> loop of \<^verbatim>\<open>remapLineRange\<close>, with its \<^verbatim>\<open>break\<close>. The parameters
  \<^verbatim>\<open>oldStart\<close> and \<^verbatim>\<open>oldEnd\<close> of the source are called \<open>lineStart\<close> and \<open>lineEnd\<close>, the
  hunk fields keeping their names.
\<close>

fun remapOffset :: "int \<Rightarrow> int \<Rightarrow> int \<Rightarrow> LineMapping list \<Rightarrow> int" where
  "remapOffset lineStart lineEnd offset [] = offset"
| "remapOffset lineStart lineEnd offset (hunk # rest) =
     (let hunkOldEnd = oldStart hunk + oldCount hunk in
      if hunkOldEnd \<le> lineStart
        then remapOffset lineStart lineEnd (offset + (newCount hunk - oldCount hunk)) rest
      else if oldStart hunk > lineEnd
        then offset
      else remapOffset lineStart lineEnd (offset + (newCount hunk - oldCount hunk)) rest)"

definition remapLineRange :: "int \<Rightarrow> int \<Rightarrow> LineMapping list \<Rightarrow> int \<times> int" where
  "remapLineRange lineStart lineEnd mappings =
     (let offset = remapOffset lineStart lineEnd 0 mappings
      in (lineStart + offset, lineEnd + offset))"

text \<open>
  The clamping both callers of \<^const>\<open>remapLineRange\<close> apply to its result
  (\<^verbatim>\<open>clampedStart\<close>, \<^verbatim>\<open>clampedEnd\<close> in the staleness check and in the repair).
\<close>

definition clampRange :: "int \<Rightarrow> int \<times> int \<Rightarrow> int \<times> int" where
  "clampRange docLineCount r =
     (case r of (newStartLine, newEndLine) \<Rightarrow>
        let clampedStart = max 1 newStartLine;
            clampedEnd = min docLineCount (max clampedStart newEndLine)
        in (clampedStart, clampedEnd))"

text \<open>
  The specification's reading of the remapper: hunks are consumed in order and
  accumulation stops at the first hunk that is not wholly before the range and starts
  after the range's end; every hunk before that one contributes its net line delta.
\<close>

definition spec_contributing :: "int \<Rightarrow> int \<Rightarrow> LineMapping list \<Rightarrow> LineMapping list" where
  "spec_contributing lineStart lineEnd hunks =
     takeWhile (\<lambda>h. oldStart h + oldCount h \<le> lineStart \<or> oldStart h \<le> lineEnd) hunks"

definition spec_offset :: "int \<Rightarrow> int \<Rightarrow> LineMapping list \<Rightarrow> int" where
  "spec_offset lineStart lineEnd hunks =
     sum_list (map (\<lambda>h. newCount h - oldCount h) (spec_contributing lineStart lineEnd hunks))"

definition example_hunk :: LineMapping where
  "example_hunk = \<lparr>oldStart = 10, oldCount = 2, newStart = 10, newCount = 5\<rparr>"

section \<open>Walkthrough data (types.ts)\<close>

text \<open>The step field \<^verbatim>\<open>file\<close> is written \<open>file'\<close>.\<close>

record WalkthroughStep =
  file' :: string
  lines :: "int \<times> int"
  symbol :: "string option"
  contentHash :: "string option"
  subtitle :: string
  duration :: "int option"

record Walkthrough =
  title :: string
  description :: string
  commitSha :: "string option"
  steps :: "WalkthroughStep list"

record WalkthroughFile =
  uri :: string
  walkthrough :: Walkthrough

text \<open>
  JavaScript truthiness of an optional string: \<^verbatim>\<open>undefined\<close>, \<^verbatim>\<open>null\<close> and the empty
  string are falsy.
\<close>

definition truthy :: "string option \<Rightarrow> bool" where
  "truthy v = (case v of None \<Rightarrow> False | Some s \<Rightarrow> s \<noteq> [])"

text \<open>The data-model invariant of the specification on a stored line range.\<close>

definition spec_lineRangeInvariant :: "int \<times> int \<Rightarrow> bool" where
  "spec_lineRangeInvariant r = (1 \<le> fst r \<and> fst r \<le> snd r)"

section \<open>The editor host: documents, ranges, symbols\<close>

text \<open>
  What the code uses of the editor API. A text document always has at least one line;
  \<^verbatim>\<open>lineAt\<close> throws for a line outside the document; the position constructor throws
  for a negative line or character; a range orders its two positions; \<^verbatim>\<open>getText\<close>
  adjusts the range to the document before reading.
\<close>

datatype error = TypeError | IllegalArgument

record TextDocument =
  docUri :: string
  firstLine :: string
  moreLines :: "string list"
  eol :: string

definition docLines :: "TextDocument \<Rightarrow> string list" where
  "docLines doc = firstLine doc # moreLines doc"

definition lineCount :: "TextDocument \<Rightarrow> int" where
  "lineCount doc = int (length (docLines doc))"

definition lineAt :: "TextDocument \<Rightarrow> int \<Rightarrow> error + string" where
  "lineAt doc n =
     (if 0 \<le> n \<and> n < lineCount doc then Inr (docLines doc ! nat n) else Inl IllegalArgument)"

record EditorRange =
  startPos :: "int \<times> int"
  endPos :: "int \<times> int"

definition isBefore :: "int \<times> int \<Rightarrow> int \<times> int \<Rightarrow> bool" where
  "isBefore p q = (fst p < fst q \<or> (fst p = fst q \<and> snd p < snd q))"

definition newRange :: "int \<Rightarrow> int \<Rightarrow> int \<Rightarrow> int \<Rightarrow> error + EditorRange" where
  "newRange startLine startCharacter endLine endCharacter =
     (if startLine < 0 \<or> startCharacter < 0 \<or> endLine < 0 \<or> endCharacter < 0
        then Inl IllegalArgument
      else if isBefore (startLine, startCharacter) (endLine, endCharacter)
        then Inr \<lparr>startPos = (startLine, startCharacter), endPos = (endLine, endCharacter)\<rparr>
      else Inr \<lparr>startPos = (endLine, endCharacter), endPos = (startLine, startCharacter)\<rparr>)"

definition validatePosition :: "TextDocument \<Rightarrow> int \<times> int \<Rightarrow> nat \<times> nat" where
  "validatePosition doc p =
     (if fst p < 0 then (0, 0)
      else if fst p \<ge> lineCount doc
        then (length (docLines doc) - 1, length (last (docLines doc)))
      else (nat (fst p), min (nat (snd p)) (length (docLines doc ! nat (fst p)))))"

fun joinLines :: "string \<Rightarrow> string list \<Rightarrow> string" where
  "joinLines sep [] = []"
| "joinLines sep [x] = x"
| "joinLines sep (x # y # rest) = x @ sep @ joinLines sep (y # rest)"

definition getText :: "TextDocument \<Rightarrow> EditorRange \<Rightarrow> string" where
  "getText doc r =
     (let s = validatePosition doc (startPos r);
          e = validatePosition doc (endPos r);
          ls = docLines doc
      in if s = e then []
         else if fst s = fst e then take (snd e - snd s) (drop (snd s) (ls ! fst s))
         else joinLines (eol doc)
                ([drop (snd s) (ls ! fst s)]
                 @ take (fst e - fst s - 1) (drop (fst s + 1) ls)
                 @ [take (snd e) (ls ! fst e)]))"

datatype DocumentSymbol =
  DocumentSymbol (sym_name: string) (sym_startLine: int) (sym_children: "DocumentSymbol list")

text \<open>
  What \<^verbatim>\<open>vscode.executeDocumentSymbolProvider\<close> can do: throw, answer \<^verbatim>\<open>undefined\<close>,
  or answer a forest of declarations.
\<close>

datatype SymbolProviderResult =
  ProviderThrows | ProviderUndefined | ProviderSymbols "DocumentSymbol list"

section \<open>The environment: workspace, git, hashing\<close>

text \<open>
  Every external answer the code asks for. The git fields are the outcome of the
  \<^verbatim>\<open>git\<close> subprocess run in a root folder, \<open>None\<close> when it fails: the trimmed output
  of \<^verbatim>\<open>rev-parse HEAD\<close>, the hunk headers of \<^verbatim>\<open>diff -U0\<close> as parsed, the exit status
  of \<^verbatim>\<open>cat-file -e\<close>, and the two paths of every rename line of
  \<^verbatim>\<open>diff --name-status -M\<close> in output order.
\<close>

record Env =
  workspaceFolders :: "string list option"
  gitRevParseHead :: "string \<Rightarrow> string option"
  gitDiffHunks :: "string \<Rightarrow> string \<Rightarrow> string \<Rightarrow> string \<Rightarrow> LineMapping list option"
  gitCatFile :: "string \<Rightarrow> string \<Rightarrow> string \<Rightarrow> bool"
  gitDiffRenames :: "string \<Rightarrow> string \<Rightarrow> string \<Rightarrow> string \<Rightarrow> (string \<times> string) list option"
  pathResolve :: "string \<Rightarrow> string \<Rightarrow> string"
  openTextDocument :: "string \<Rightarrow> TextDocument option"
  sha256hex :: "string \<Rightarrow> string"
  executeDocumentSymbolProvider :: "string \<Rightarrow> SymbolProviderResult"

definition getWorkspaceRoot :: "Env \<Rightarrow> string option" where
  "getWorkspaceRoot env =
     (case workspaceFolders env of
        None \<Rightarrow> None
      | Some [] \<Rightarrow> None
      | Some (folder # _) \<Rightarrow> Some folder)"

definition getHeadSha :: "Env \<Rightarrow> string option" where
  "getHeadSha env =
     (case getWorkspaceRoot env of
        None \<Rightarrow> None
      | Some root \<Rightarrow> gitRevParseHead env root)"

definition computeLineMappings :: "Env \<Rightarrow> string \<Rightarrow> string \<Rightarrow> string \<Rightarrow> LineMapping list" where
  "computeLineMappings env fromSha toSha filePath =
     (case getWorkspaceRoot env of
        None \<Rightarrow> []
      | Some root \<Rightarrow>
          (case gitDiffHunks env root fromSha toSha filePath of
             None \<Rightarrow> []
           | Some mappings \<Rightarrow> mappings))"

definition fileExistsAtCommit :: "Env \<Rightarrow> string \<Rightarrow> string \<Rightarrow> bool" where
  "fileExistsAtCommit env sha filePath =
     (case getWorkspaceRoot env of
        None \<Rightarrow> False
      | Some root \<Rightarrow> gitCatFile env root sha filePath)"

fun firstRename :: "(string \<times> string) list \<Rightarrow> string \<Rightarrow> string option" where
  "firstRename [] filePath = None"
| "firstRename ((a, b) # rest) filePath =
     (if a = filePath then Some b
      else if b = filePath then Some a
      else firstRename rest filePath)"

definition getFileRenames :: "Env \<Rightarrow> string \<Rightarrow> string \<Rightarrow> string \<Rightarrow> string option" where
  "getFileRenames env fromSha toSha filePath =
     (case getWorkspaceRoot env of
        None \<Rightarrow> None
      | Some root \<Rightarrow>
          (case gitDiffRenames env root fromSha toSha filePath of
             None \<Rightarrow> None
           | Some renameLines \<Rightarrow> firstRename renameLines filePath))"

text \<open>\<^verbatim>\<open>createHash("sha256").update(content).digest("hex").slice(0, 12)\<close>\<close>

definition contentDigest :: "Env \<Rightarrow> string \<Rightarrow> string" where
  "contentDigest env content = take 12 (sha256hex env content)"

text \<open>
  The expression both modules use to fingerprint the lines \<open>a .. b\<close> (0-indexed):
  \<^verbatim>\<open>doc.getText(new Range(a, 0, b, doc.lineAt(b).text.length))\<close>, hashed.
\<close>

definition contentHashAt :: "Env \<Rightarrow> TextDocument \<Rightarrow> int \<Rightarrow> int \<Rightarrow> error + string" where
  "contentHashAt env doc a b =
     (case lineAt doc b of
        Inl e \<Rightarrow> Inl e
      | Inr endText \<Rightarrow>
          (case newRange a 0 b (int (length endText)) of
             Inl e \<Rightarrow> Inl e
           | Inr r \<Rightarrow> Inr (contentDigest env (getText doc r))))"

text \<open>
  The per-invocation hunk cache (a \<^verbatim>\<open>Map\<close> from string keys), together with a log of
  every call of \<^const>\<open>computeLineMappings\<close> made on a cache miss.
\<close>

record LoopState =
  mappingsCache :: "string \<rightharpoonup> LineMapping list"
  diffCalls :: "(string \<times> string \<times> string) list"

definition cachedMappings ::
  "Env \<Rightarrow> string \<Rightarrow> string \<Rightarrow> string \<Rightarrow> string \<Rightarrow> 'a LoopState_scheme
     \<Rightarrow> LineMapping list \<times> 'a LoopState_scheme" where
  "cachedMappings env fromSha toSha cacheKey filePath st =
     (case mappingsCache st cacheKey of
        Some mappings \<Rightarrow> (mappings, st)
      | None \<Rightarrow>
          (let mappings = computeLineMappings env fromSha toSha filePath
           in (mappings,
               st\<lparr>mappingsCache := (mappingsCache st)(cacheKey \<mapsto> mappings),
                  diffCalls := diffCalls st @ [(fromSha, toSha, filePath)]\<rparr>)))"

section \<open>Rendering numbers in messages\<close>

fun natToString :: "nat \<Rightarrow> string" where
  "natToString n =
     (if n < 10 then [''0123456789'' ! n]
      else natToString (n div 10) @ [''0123456789'' ! (n mod 10)])"

declare natToString.simps [simp del]

definition numberToString :: "int \<Rightarrow> string" where
  "numberToString i = (if i < 0 then ''-'' @ natToString (nat (- i)) else natToString (nat i))"

section \<open>Staleness check (staleness.ts)\<close>

datatype StaleStatus = Fresh | Drifted | Missing | GitResolved

record StaleCheckResult =
  stepIndex :: nat
  status :: StaleStatus
  resolvedLines :: "(int \<times> int) option"
  detail :: "string option"

definition checkContentHash :: "Env \<Rightarrow> TextDocument \<Rightarrow> WalkthroughStep \<Rightarrow> error + bool" where
  "checkContentHash env doc step =
     (let startLine = max 0 (fst (lines step) - 1);
          endLine = min (lineCount doc - 1) (snd (lines step) - 1)
      in case contentHashAt env doc startLine endLine of
           Inl e \<Rightarrow> Inl e
         | Inr hash \<Rightarrow> Inr (Some hash = contentHash step))"

fun findSymbolByName :: "DocumentSymbol list \<Rightarrow> string \<Rightarrow> DocumentSymbol option" where
  "findSymbolByName [] name = None"
| "findSymbolByName (DocumentSymbol n l children # rest) name =
     (if n = name then Some (DocumentSymbol n l children)
      else (case findSymbolByName children name of
              Some child \<Rightarrow> Some child
            | None \<Rightarrow> findSymbolByName rest name))"

definition findBySymbol :: "Env \<Rightarrow> TextDocument \<Rightarrow> WalkthroughStep \<Rightarrow> (int \<times> int) option" where
  "findBySymbol env doc step =
     (case symbol step of
        None \<Rightarrow> None
      | Some name \<Rightarrow>
          if name = [] then None
          else (case executeDocumentSymbolProvider env (docUri doc) of
                  ProviderThrows \<Rightarrow> None
                | ProviderUndefined \<Rightarrow> None
                | ProviderSymbols symbols \<Rightarrow>
                    (case findSymbolByName symbols name of
                       None \<Rightarrow> None
                     | Some match \<Rightarrow>
                         (let lineSpan = snd (lines step) - fst (lines step)
                          in Some (sym_startLine match + 1,
                                   sym_startLine match + 1 + lineSpan)))))"

definition freshResult :: "nat \<Rightarrow> StaleCheckResult" where
  "freshResult i = \<lparr>stepIndex = i, status = Fresh, resolvedLines = None, detail = None\<rparr>"

definition missingFileResult :: "nat \<Rightarrow> WalkthroughStep \<Rightarrow> StaleCheckResult" where
  "missingFileResult i step =
     \<lparr>stepIndex = i, status = Missing, resolvedLines = None,
      detail = Some (''File not found: '' @ file' step)\<rparr>"

text \<open>The branch taken when git hunks exist for the step's file.\<close>

definition gitRemapResult ::
  "Env \<Rightarrow> TextDocument \<Rightarrow> nat \<Rightarrow> WalkthroughStep \<Rightarrow> LineMapping list \<Rightarrow> error + StaleCheckResult" where
  "gitRemapResult env doc i step mappings =
     (case clampRange (lineCount doc)
             (remapLineRange (fst (lines step)) (snd (lines step)) mappings) of
        (clampedStart, clampedEnd) \<Rightarrow>
          (case contentHashAt env doc (clampedStart - 1) (clampedEnd - 1) of
             Inl e \<Rightarrow> Inl e
           | Inr remappedHash \<Rightarrow>
               if Some remappedHash = contentHash step
               then Inr \<lparr>stepIndex = i, status = GitResolved,
                         resolvedLines = Some (clampedStart, clampedEnd),
                         detail = Some (''Git resolved: lines shifted to ''
                           @ numberToString clampedStart @ ''-'' @ numberToString clampedEnd)\<rparr>
               else Inr \<lparr>stepIndex = i, status = Drifted,
                         resolvedLines = Some (clampedStart, clampedEnd),
                         detail = Some (''Git remapped to ''
                           @ numberToString clampedStart @ ''-'' @ numberToString clampedEnd
                           @ '', but content also changed'')\<rparr>))"

text \<open>The symbol fallback and the final verdict behind it.\<close>

definition symbolResult :: "Env \<Rightarrow> TextDocument \<Rightarrow> nat \<Rightarrow> WalkthroughStep \<Rightarrow> StaleCheckResult" where
  "symbolResult env doc i step =
     (case findBySymbol env doc step of
        Some symbolMatch \<Rightarrow>
          \<lparr>stepIndex = i, status = Drifted, resolvedLines = Some symbolMatch,
           detail = Some (''Lines shifted. Symbol '' @ [CHR 0x22]
             @ (case symbol step of Some name \<Rightarrow> name | None \<Rightarrow> ''undefined'')
             @ [CHR 0x22] @ '' found at '' @ numberToString (fst symbolMatch)
             @ ''-'' @ numberToString (snd symbolMatch))\<rparr>
      | None \<Rightarrow>
          \<lparr>stepIndex = i, status = Drifted, resolvedLines = None,
           detail = Some ''Content hash mismatch. Code may have changed since walkthrough was created.''\<rparr>)"

text \<open>
  \<^verbatim>\<open>canUseGit\<close>: both revisions truthy and different; the result carries the two
  revisions when it holds.
\<close>

definition canUseGit :: "string option \<Rightarrow> string option \<Rightarrow> (string \<times> string) option" where
  "canUseGit commit headSha =
     (if truthy commit \<and> truthy headSha \<and> commit \<noteq> headSha
      then (case commit of
              None \<Rightarrow> None
            | Some c \<Rightarrow> (case headSha of None \<Rightarrow> None | Some h \<Rightarrow> Some (c, h)))
      else None)"

text \<open>
  One iteration of the loop of \<^verbatim>\<open>checkStaleness\<close>: the \<^verbatim>\<open>try\<close> body, with every
  exception turned into the \<^verbatim>\<open>catch\<close> verdict.
\<close>

definition checkStep ::
  "Env \<Rightarrow> (string \<times> string) option \<Rightarrow> string \<Rightarrow> nat \<Rightarrow> WalkthroughStep \<Rightarrow> LoopState
     \<Rightarrow> StaleCheckResult \<times> LoopState" where
  "checkStep env git rootPath i step st =
     (let filePath = pathResolve env rootPath (file' step) in
      case openTextDocument env filePath of
        None \<Rightarrow> (missingFileResult i step, st)
      | Some doc \<Rightarrow>
          if \<not> truthy (contentHash step) then (freshResult i, st)
          else (case checkContentHash env doc step of
                  Inl e \<Rightarrow> (missingFileResult i step, st)
                | Inr hashMatch \<Rightarrow>
                    if hashMatch then (freshResult i, st)
                    else (case git of
                            None \<Rightarrow> (symbolResult env doc i step, st)
                          | Some (c, h) \<Rightarrow>
                              (case cachedMappings env c h (file' step) (file' step) st of
                                 (mappings, st') \<Rightarrow>
                                   if mappings \<noteq> []
                                   then (case gitRemapResult env doc i step mappings of
                                           Inl e \<Rightarrow> (missingFileResult i step, st')
                                         | Inr r \<Rightarrow> (r, st'))
                                   else (symbolResult env doc i step, st')))))"

fun staleLoop ::
  "Env \<Rightarrow> (string \<times> string) option \<Rightarrow> string \<Rightarrow> nat \<Rightarrow> WalkthroughStep list
     \<Rightarrow> StaleCheckResult list \<times> LoopState \<Rightarrow> StaleCheckResult list \<times> LoopState" where
  "staleLoop env git rootPath i [] acc = acc"
| "staleLoop env git rootPath i (step # rest) acc =
     (case checkStep env git rootPath i step (snd acc) of
        (r, st') \<Rightarrow> staleLoop env git rootPath (Suc i) rest (fst acc @ [r], st'))"

definition emptyLoopState :: LoopState where
  "emptyLoopState = \<lparr>mappingsCache = Map.empty, diffCalls = []\<rparr>"

definition noWorkspaceResult :: "nat \<Rightarrow> StaleCheckResult" where
  "noWorkspaceResult i =
     \<lparr>stepIndex = i, status = Missing, resolvedLines = None, detail = Some ''No workspace open''\<rparr>"

text \<open>
  \<^verbatim>\<open>checkStaleness\<close>, with the final loop state kept beside the results. An empty
  folder array passes the \<^verbatim>\<open>!workspaceFolders\<close> test, and reading
  \<^verbatim>\<open>workspaceFolders[0].uri\<close> then throws.
\<close>

definition checkStalenessRun ::
  "Env \<Rightarrow> WalkthroughStep list \<Rightarrow> string option
     \<Rightarrow> error + (StaleCheckResult list \<times> LoopState)" where
  "checkStalenessRun env stepList commit =
     (case workspaceFolders env of
        None \<Rightarrow> Inr (map noWorkspaceResult [0 ..< length stepList], emptyLoopState)
      | Some [] \<Rightarrow> Inl TypeError
      | Some (rootPath # _) \<Rightarrow>
          Inr (staleLoop env (canUseGit commit (getHeadSha env)) rootPath 0 stepList
                 ([], emptyLoopState)))"

definition checkStaleness ::
  "Env \<Rightarrow> WalkthroughStep list \<Rightarrow> string option \<Rightarrow> error + StaleCheckResult list" where
  "checkStaleness env stepList commit =
     (case checkStalenessRun env stepList commit of
        Inl e \<Rightarrow> Inl e
      | Inr run \<Rightarrow> Inr (fst run))"

text \<open>
  The declarations of a symbol forest in depth-first order, parents before children:
  the order the specification gives for the symbol search.
\<close>

fun preorderSymbols :: "DocumentSymbol list \<Rightarrow> DocumentSymbol list" where
  "preorderSymbols [] = []"
| "preorderSymbols (DocumentSymbol n l children # rest) =
     DocumentSymbol n l children # preorderSymbols children @ preorderSymbols rest"

text \<open>
  The verdict of one step written without the cache: what the specification's tiers
  give when the hunks of a path are those git reports for it.
\<close>

definition stepVerdict ::
  "Env \<Rightarrow> (string \<times> string) option \<Rightarrow> string \<Rightarrow> nat \<Rightarrow> WalkthroughStep \<Rightarrow> StaleCheckResult" where
  "stepVerdict env git rootPath i step =
     (case openTextDocument env (pathResolve env rootPath (file' step)) of
        None \<Rightarrow> missingFileResult i step
      | Some doc \<Rightarrow>
          if \<not> truthy (contentHash step) then freshResult i
          else (case checkContentHash env doc step of
                  Inl e \<Rightarrow> missingFileResult i step
                | Inr hashMatch \<Rightarrow>
                    if hashMatch then freshResult i
                    else (case git of
                            None \<Rightarrow> symbolResult env doc i step
                          | Some (c, h) \<Rightarrow>
                              if computeLineMappings env c h (file' step) \<noteq> []
                              then (case gitRemapResult env doc i step
                                           (computeLineMappings env c h (file' step)) of
                                      Inl e \<Rightarrow> missingFileResult i step
                                    | Inr r \<Rightarrow> r)
                              else symbolResult env doc i step)))"

text \<open>The cache holds, under each key, the hunks git reports for that key.\<close>

definition cacheConsistent :: "Env \<Rightarrow> (string \<times> string) option \<Rightarrow> LoopState \<Rightarrow> bool" where
  "cacheConsistent env git st =
     (\<forall>k m. mappingsCache st k = Some m \<longrightarrow>
        (case git of None \<Rightarrow> False | Some (c, h) \<Rightarrow> m = computeLineMappings env c h k))"

section \<open>Repair (repair.ts)\<close>

record RepairResult =
  repaired :: bool
  stepsFixed :: nat
  stepsUnresolvable :: nat
  repairedWalkthrough :: Walkthrough

text \<open>The loop variables of \<^verbatim>\<open>repairWalkthrough\<close>, on top of the hunk cache.\<close>

record RepairState = LoopState +
  repairedSteps :: "WalkthroughStep list"
  fixedCount :: nat
  unresolvableCount :: nat

definition emptyRepairState :: RepairState where
  "emptyRepairState =
     \<lparr>mappingsCache = Map.empty, diffCalls = [],
      repairedSteps = [], fixedCount = 0, unresolvableCount = 0\<rparr>"

text \<open>\<^verbatim>\<open>currentFile\<close>: the step's file, or its renamed path when git reports one.\<close>

definition currentFileOf :: "Env \<Rightarrow> string \<Rightarrow> string \<Rightarrow> WalkthroughStep \<Rightarrow> string" where
  "currentFileOf env oldSha newSha step =
     (if fileExistsAtCommit env oldSha (file' step)
      then (case getFileRenames env oldSha newSha (file' step) of
              None \<Rightarrow> file' step
            | Some renamed \<Rightarrow> if renamed \<noteq> [] then renamed else file' step)
      else file' step)"

text \<open>
  One iteration of the loop of \<^verbatim>\<open>repairWalkthrough\<close>. Only opening the document is
  inside a \<^verbatim>\<open>try\<close>; an exception of \<^verbatim>\<open>lineAt\<close> leaves the function.
\<close>

definition repairStep ::
  "Env \<Rightarrow> string \<Rightarrow> string \<Rightarrow> string \<Rightarrow> WalkthroughStep \<Rightarrow> RepairState \<Rightarrow> error + RepairState" where
  "repairStep env oldSha newSha rootPath step st =
     (let currentFile = currentFileOf env oldSha newSha step;
          currentFilePath = pathResolve env rootPath currentFile
      in case openTextDocument env currentFilePath of
           None \<Rightarrow>
             Inr (st\<lparr>repairedSteps := repairedSteps st @ [step],
                     unresolvableCount := Suc (unresolvableCount st)\<rparr>)
         | Some doc \<Rightarrow>
             (case contentHashAt env doc
                     (max 0 (fst (lines step) - 1))
                     (min (lineCount doc - 1) (snd (lines step) - 1)) of
                Inl e \<Rightarrow> Inl e
              | Inr currentHash \<Rightarrow>
                  if Some currentHash = contentHash step \<and> currentFile = file' step
                  then Inr (st\<lparr>repairedSteps := repairedSteps st @ [step]\<rparr>)
                  else
                    (case cachedMappings env oldSha newSha currentFile (file' step) st of
                       (mappings, st') \<Rightarrow>
                         if mappings \<noteq> []
                         then
                           (case clampRange (lineCount doc)
                                   (remapLineRange (fst (lines step)) (snd (lines step)) mappings) of
                              (clampedStart, clampedEnd) \<Rightarrow>
                                (case contentHashAt env doc (clampedStart - 1) (clampedEnd - 1) of
                                   Inl e \<Rightarrow> Inl e
                                 | Inr remappedHash \<Rightarrow>
                                     Inr (st'\<lparr>repairedSteps := repairedSteps st' @
                                                [step\<lparr>file' := currentFile,
                                                      lines := (clampedStart, clampedEnd),
                                                      contentHash := Some remappedHash\<rparr>],
                                              fixedCount := Suc (fixedCount st')\<rparr>)))
                         else
                           Inr (st'\<lparr>repairedSteps := repairedSteps st' @
                                      [step\<lparr>file' := currentFile,
                                            contentHash := Some currentHash\<rparr>],
                                    unresolvableCount := Suc (unresolvableCount st')\<rparr>))))"

fun repairLoop ::
  "Env \<Rightarrow> string \<Rightarrow> string \<Rightarrow> string \<Rightarrow> WalkthroughStep list \<Rightarrow> RepairState \<Rightarrow> error + RepairState" where
  "repairLoop env oldSha newSha rootPath [] st = Inr st"
| "repairLoop env oldSha newSha rootPath (step # rest) st =
     (case repairStep env oldSha newSha rootPath step st of
        Inl e \<Rightarrow> Inl e
      | Inr st' \<Rightarrow> repairLoop env oldSha newSha rootPath rest st')"

definition failedRepair :: "Walkthrough \<Rightarrow> RepairResult" where
  "failedRepair w =
     \<lparr>repaired = False, stepsFixed = 0, stepsUnresolvable = length (steps w),
      repairedWalkthrough = w\<rparr>"

text \<open>
  \<^verbatim>\<open>repairWalkthrough\<close>. \<^verbatim>\<open>!oldSha\<close> holds for an absent and for an empty revision.
  The result field \<^verbatim>\<open>walkthrough\<close> is named \<open>repairedWalkthrough\<close> here.
\<close>

definition repairWalkthrough :: "Env \<Rightarrow> WalkthroughFile \<Rightarrow> error + RepairResult" where
  "repairWalkthrough env walkthroughFile =
     (let w = walkthrough walkthroughFile in
      case commitSha w of
        None \<Rightarrow> Inr (failedRepair w)
      | Some oldSha \<Rightarrow>
          (case getHeadSha env of
             None \<Rightarrow> Inr (failedRepair w)
           | Some newSha \<Rightarrow>
               if oldSha = [] \<or> newSha = [] then Inr (failedRepair w)
               else if oldSha = newSha
                 then Inr \<lparr>repaired = True, stepsFixed = 0, stepsUnresolvable = 0,
                           repairedWalkthrough = w\<rparr>
               else
                 (case workspaceFolders env of
                    None \<Rightarrow> Inr (failedRepair w)
                  | Some [] \<Rightarrow> Inl TypeError
                  | Some (rootPath # _) \<Rightarrow>
                      (case repairLoop env oldSha newSha rootPath (steps w) emptyRepairState of
                         Inl e \<Rightarrow> Inl e
                       | Inr st \<Rightarrow>
                           Inr \<lparr>repaired = (fixedCount st > 0 \<or> unresolvableCount st = 0),
                                stepsFixed = fixedCount st,
                                stepsUnresolvable = unresolvableCount st,
                                repairedWalkthrough =
                                  w\<lparr>commitSha := Some newSha, steps := repairedSteps st\<rparr>\<rparr>))))"

section \<open>Loader validation (loader.ts)\<close>

text \<open>
  A value as \<^verbatim>\<open>JSON.parse\<close> returns it. An object lists its properties once each.
  Numbers are kept as integers, which is all the line pairs below need.
\<close>

datatype JsonValue =
    JNull
  | JBool bool
  | JNumber int
  | JString string
  | JArray "JsonValue list"
  | JObject "(string \<times> JsonValue) list"

text \<open>
  Reading a named property: \<^verbatim>\<open>undefined\<close> is \<open>None\<close>. Of an array only the names
  \<^verbatim>\<open>file\<close>, \<^verbatim>\<open>lines\<close>, \<^verbatim>\<open>subtitle\<close>, \<^verbatim>\<open>title\<close>, \<^verbatim>\<open>description\<close> and \<^verbatim>\<open>steps\<close> are ever
  read, and an array has none of them.
\<close>

fun getProp :: "JsonValue \<Rightarrow> string \<Rightarrow> JsonValue option" where
  "getProp (JObject props) key = map_of props key"
| "getProp v key = None"

fun isObject :: "JsonValue \<Rightarrow> bool" where
  "isObject (JObject props) = True"
| "isObject (JArray xs) = True"
| "isObject v = False"

fun isStringProp :: "JsonValue option \<Rightarrow> bool" where
  "isStringProp (Some (JString s)) = True"
| "isStringProp v = False"

fun isNumberValue :: "JsonValue \<Rightarrow> bool" where
  "isNumberValue (JNumber n) = True"
| "isNumberValue v = False"

fun isNumberPair :: "JsonValue option \<Rightarrow> bool" where
  "isNumberPair (Some (JArray [a, b])) = (isNumberValue a \<and> isNumberValue b)"
| "isNumberPair v = False"

definition isValidStep :: "JsonValue \<Rightarrow> bool" where
  "isValidStep step =
     (if \<not> isObject step then False
      else isStringProp (getProp step ''file'')
           \<and> isNumberPair (getProp step ''lines'')
           \<and> isStringProp (getProp step ''subtitle''))"

fun isValidStepArray :: "JsonValue option \<Rightarrow> bool" where
  "isValidStepArray (Some (JArray xs)) = (length xs > 0 \<and> list_all isValidStep xs)"
| "isValidStepArray v = False"

definition isValidWalkthrough :: "JsonValue \<Rightarrow> bool" where
  "isValidWalkthrough data =
     (if \<not> isObject data then False
      else isStringProp (getProp data ''title'')
           \<and> isStringProp (getProp data ''description'')
           \<and> isValidStepArray (getProp data ''steps''))"

definition stepJson :: "string \<Rightarrow> int \<Rightarrow> int \<Rightarrow> string \<Rightarrow> JsonValue" where
  "stepJson f a b sub =
     JObject [(''file'', JString f), (''lines'', JArray [JNumber a, JNumber b]),
              (''subtitle'', JString sub)]"

definition walkthroughJson :: "string \<Rightarrow> string \<Rightarrow> JsonValue list \<Rightarrow> JsonValue" where
  "walkthroughJson t d ss =
     JObject [(''title'', JString t), (''description'', JString d), (''steps'', JArray ss)]"

section \<open>A concrete workspace for evaluation\<close>

text \<open>
  One folder \<open>/ws\<close> at head revision \<open>rev2\<close>, holding two ten-line files. \<open>a.ts\<close> was
  edited since \<open>rev1\<close>. \<open>x/y\<close> is new: at \<open>rev1\<close> there was a seven-line file \<open>x\<close>, since
  replaced by the directory \<open>x\<close> with the file \<open>y\<close> in it, three lines added at the top.
  A git query limited to the path \<open>x\<close> covers \<open>x\<close> and \<open>x/y\<close>: it reports the rename and
  the hunk of the edit. A query limited to \<open>x/y\<close> sees only a new file. The digest is a
  stand-in: the text itself.
\<close>

definition example_doc :: "string \<Rightarrow> TextDocument" where
  "example_doc u =
     \<lparr>docUri = u, firstLine = ''l1'',
      moreLines = [''l2'', ''l3'', ''l4'', ''l5'', ''l6'', ''l7'', ''l8'', ''l9'', ''l10''],
      eol = [CHR 0x0A]\<rparr>"

definition example_symbols :: "DocumentSymbol list" where
  "example_symbols =
     [DocumentSymbol ''A'' 0 [DocumentSymbol ''foo'' 3 [], DocumentSymbol ''bar'' 5 []],
      DocumentSymbol ''foo'' 7 []]"

definition example_env :: Env where
  "example_env =
     \<lparr>workspaceFolders = Some [''/ws''],
      gitRevParseHead = (\<lambda>root. Some ''rev2''),
      gitDiffHunks = (\<lambda>root fromSha toSha p.
         if p = ''a.ts'' then Some [example_hunk]
         else if p = ''x''
           then Some [\<lparr>oldStart = 1, oldCount = 1, newStart = 1, newCount = 4\<rparr>]
         else if p = ''x/y''
           then Some [\<lparr>oldStart = 0, oldCount = 0, newStart = 1, newCount = 10\<rparr>]
         else Some []),
      gitCatFile = (\<lambda>root sha p. p = ''a.ts'' \<or> p = ''x''),
      gitDiffRenames = (\<lambda>root fromSha toSha p.
         if p = ''x'' then Some [(''x'', ''x/y'')] else Some []),
      pathResolve = (\<lambda>root f. root @ ''/'' @ f),
      openTextDocument = (\<lambda>p.
         if p = ''/ws/a.ts'' \<or> p = ''/ws/x/y'' then Some (example_doc p) else None),
      sha256hex = (\<lambda>content. content),
      executeDocumentSymbolProvider = (\<lambda>u. ProviderSymbols example_symbols)\<rparr>"

definition example_step :: "string \<Rightarrow> int \<times> int \<Rightarrow> string option \<Rightarrow> WalkthroughStep" where
  "example_step f r h =
     \<lparr>file' = f, lines = r, symbol = Some ''foo'', contentHash = h,
      subtitle = ''s'', duration = None\<rparr>"

section \<open>Remapping theorems\<close>

lemma remapOffset_acc:
  "remapOffset s e acc hs = acc + spec_offset s e hs"
proof (induction hs arbitrary: acc)
  case Nil
  show ?case by (simp add: spec_offset_def spec_contributing_def)
next
  case (Cons h hs)
  show ?case
    using Cons.IH [of "acc + (newCount h - oldCount h)"]
    by (simp add: spec_offset_def spec_contributing_def Let_def)
qed

lemma takeWhile_sorted_filter:
  assumes "sorted_wrt (\<lambda>a b. oldStart a \<le> oldStart b) hs"
  shows "takeWhile (\<lambda>h. oldStart h \<le> e) hs = filter (\<lambda>h. oldStart h \<le> e) hs"
  using assms
proof (induction hs)
  case Nil
  show ?case by simp
next
  case (Cons h hs)
  show ?case
  proof (cases "oldStart h \<le> e")
    case True
    with Cons show ?thesis by simp
  next
    case False
    with Cons.prems have "\<forall>x\<in>set hs. \<not> oldStart x \<le> e" by auto
    then have "filter (\<lambda>h. oldStart h \<le> e) hs = []" by (simp add: filter_empty_conv)
    with False show ?thesis by simp
  qed
qed

lemma spec_contributing_simple:
  assumes "s \<le> e" and "\<forall>h\<in>set hs. 0 \<le> oldCount h"
  shows "spec_contributing s e hs = takeWhile (\<lambda>h. oldStart h \<le> e) hs"
proof -
  have "\<forall>h\<in>set hs. (oldStart h + oldCount h \<le> s \<or> oldStart h \<le> e) = (oldStart h \<le> e)"
    using assms by auto
  then show ?thesis
    unfolding spec_contributing_def by (intro takeWhile_cong) auto
qed

text \<open>
  C1. \<^const>\<open>remapLineRange\<close> shifts both ends of the range by one offset: the sum of
  \<open>newCount - oldCount\<close> over the hunks read before the loop stops. A hunk wholly
  before the range start contributes, the first other hunk starting after the range
  end stops the loop, every other hunk contributes. For a range with \<open>start \<le> end\<close>,
  hunks with non-negative counts and ascending \<open>oldStart\<close>, the contributing hunks are
  exactly those with \<open>oldStart \<le> end\<close>. The hunk \<open>{10, 2, 10, 5}\<close> maps \<open>(20, 22)\<close> to
  \<open>(23, 25)\<close> and leaves \<open>(1, 3)\<close> unchanged.
\<close>

theorem remapLineRange_offset:
  "remapLineRange s e hs = (s + spec_offset s e hs, e + spec_offset s e hs)
   \<and> (s \<le> e \<and> (\<forall>h\<in>set hs. 0 \<le> oldCount h)
        \<longrightarrow> spec_contributing s e hs = takeWhile (\<lambda>h. oldStart h \<le> e) hs)
   \<and> (s \<le> e \<and> (\<forall>h\<in>set hs. 0 \<le> oldCount h)
        \<and> sorted_wrt (\<lambda>a b. oldStart a \<le> oldStart b) hs
        \<longrightarrow> spec_contributing s e hs = filter (\<lambda>h. oldStart h \<le> e) hs)
   \<and> remapLineRange 20 22 [example_hunk] = (23, 25)
   \<and> remapLineRange 1 3 [example_hunk] = (1, 3)"
proof -
  have a: "remapLineRange s e hs = (s + spec_offset s e hs, e + spec_offset s e hs)"
    by (simp add: remapLineRange_def remapOffset_acc Let_def)
  have b: "s \<le> e \<and> (\<forall>h\<in>set hs. 0 \<le> oldCount h)
        \<longrightarrow> spec_contributing s e hs = takeWhile (\<lambda>h. oldStart h \<le> e) hs"
    using spec_contributing_simple by blast
  have c: "s \<le> e \<and> (\<forall>h\<in>set hs. 0 \<le> oldCount h)
        \<and> sorted_wrt (\<lambda>a b. oldStart a \<le> oldStart b) hs
        \<longrightarrow> spec_contributing s e hs = filter (\<lambda>h. oldStart h \<le> e) hs"
    using spec_contributing_simple takeWhile_sorted_filter by metis
  have d: "remapLineRange 20 22 [example_hunk] = (23, 25)"
    by (simp add: remapLineRange_def example_hunk_def)
  have e: "remapLineRange 1 3 [example_hunk] = (1, 3)"
    by (simp add: remapLineRange_def example_hunk_def)
  from a b c d e show ?thesis by blast
qed

theorem remapLineRange_offset_witness:
  "(20::int) \<le> 22 \<and> 0 \<le> oldCount example_hunk
   \<and> sorted_wrt (\<lambda>a b. oldStart a \<le> oldStart b) [example_hunk]
   \<and> spec_contributing 20 22 [example_hunk] = [example_hunk]
   \<and> spec_offset 20 22 [example_hunk] = 3
   \<and> remapLineRange 20 22 [example_hunk] = (20 + 3, 22 + 3)"
  using remapLineRange_offset [of 20 22 "[example_hunk]"]
  by (simp add: example_hunk_def spec_offset_def)

section \<open>Staleness: every step gets its own verdict\<close>

lemma lineCount_pos: "1 \<le> lineCount doc"
  by (simp add: lineCount_def docLines_def)

lemma contentHashAt_ok:
  assumes "0 \<le> a" and "0 \<le> b" and "b < lineCount doc"
  shows "\<exists>h. contentHashAt env doc a b = Inr h"
  using assms
  by (simp add: contentHashAt_def lineAt_def newRange_def)

lemma clampRange_bounds:
  assumes "clampRange (lineCount doc) r = (cs, ce)"
  shows "1 \<le> cs \<and> 1 \<le> ce \<and> ce \<le> lineCount doc"
  using assms lineCount_pos [of doc]
  by (auto simp: clampRange_def Let_def split: prod.splits)

lemma gitRemapResult_ok:
  "\<exists>r. gitRemapResult env doc i step m = Inr r \<and> stepIndex r = i"
proof -
  obtain cs ce where c: "clampRange (lineCount doc)
      (remapLineRange (fst (lines step)) (snd (lines step)) m) = (cs, ce)"
    by (cases "clampRange (lineCount doc)
      (remapLineRange (fst (lines step)) (snd (lines step)) m)") auto
  from clampRange_bounds [OF c] have "0 \<le> cs - 1" "0 \<le> ce - 1" "ce - 1 < lineCount doc"
    by auto
  from contentHashAt_ok [OF this] obtain h where "contentHashAt env doc (cs - 1) (ce - 1) = Inr h"
    by blast
  with c show ?thesis by (simp add: gitRemapResult_def)
qed

lemma cacheConsistent_empty: "cacheConsistent env git emptyLoopState"
  by (simp add: cacheConsistent_def emptyLoopState_def)

lemma cachedMappings_consistent:
  assumes "cacheConsistent env (Some (c, h)) st"
    and "cachedMappings env c h k k st = (m, st')"
  shows "m = computeLineMappings env c h k \<and> cacheConsistent env (Some (c, h)) st'"
proof (cases "mappingsCache st k")
  case None
  with assms(2) have m: "m = computeLineMappings env c h k"
    and s: "mappingsCache st' = (mappingsCache st)(k \<mapsto> m)"
    by (auto simp: cachedMappings_def Let_def)
  from assms(1) s m have "cacheConsistent env (Some (c, h)) st'"
    by (simp add: cacheConsistent_def)
  with m show ?thesis by simp
next
  case (Some m0)
  with assms(2) have "m = m0" "st' = st" by (auto simp: cachedMappings_def)
  with assms(1) Some show ?thesis by (simp add: cacheConsistent_def)
qed

lemma checkStep_consistent:
  assumes "cacheConsistent env git st"
  shows "\<exists>st'. checkStep env git root i step st = (stepVerdict env git root i step, st')
               \<and> cacheConsistent env git st'"
proof (cases "openTextDocument env (pathResolve env root (file' step))")
  case None
  with assms show ?thesis by (simp add: checkStep_def stepVerdict_def)
next
  case (Some doc)
  note doc = Some
  show ?thesis
  proof (cases "truthy (contentHash step)")
    case False
    with assms doc show ?thesis by (simp add: checkStep_def stepVerdict_def)
  next
    case True
    note tr = True
    show ?thesis
    proof (cases "checkContentHash env doc step")
      case (Inl e)
      with assms doc tr show ?thesis by (simp add: checkStep_def stepVerdict_def)
    next
      case (Inr hashMatch)
      note hm = Inr
      show ?thesis
      proof (cases hashMatch)
        case True
        with assms doc tr hm show ?thesis by (simp add: checkStep_def stepVerdict_def)
      next
        case False
        note nm = False
        show ?thesis
        proof (cases git)
          case None
          with assms doc tr hm nm show ?thesis by (simp add: checkStep_def stepVerdict_def)
        next
          case (Some ch)
          obtain c h where ch: "ch = (c, h)" by (cases ch) auto
          obtain m st' where cm: "cachedMappings env c h (file' step) (file' step) st = (m, st')"
            by (cases "cachedMappings env c h (file' step) (file' step) st") auto
          from cachedMappings_consistent [OF _ cm] assms Some ch
          have m: "m = computeLineMappings env c h (file' step)"
            and k: "cacheConsistent env git st'" by auto
          from doc tr hm nm Some ch cm m k show ?thesis
            by (simp add: checkStep_def stepVerdict_def split: sum.splits)
        qed
      qed
    qed
  qed
qed

lemma staleLoop_results:
  assumes "cacheConsistent env git (snd acc)"
  shows "fst (staleLoop env git root i ss acc)
           = fst acc @ map (\<lambda>(j, s). stepVerdict env git root j s) (zip [i ..< i + length ss] ss)"
  using assms
proof (induction ss arbitrary: i acc)
  case Nil
  show ?case by simp
next
  case (Cons s ss)
  from checkStep_consistent [OF Cons.prems, of root i s]
  obtain st' where c: "checkStep env git root i s (snd acc) = (stepVerdict env git root i s, st')"
    and k: "cacheConsistent env git st'"
    by blast
  have z: "[i ..< i + length (s # ss)] = i # [Suc i ..< Suc i + length ss]"
    by (subst upt_rec) simp
  from Cons.IH [of "(fst acc @ [stepVerdict env git root i s], st')" "Suc i"] k
  have "fst (staleLoop env git root (Suc i) ss (fst acc @ [stepVerdict env git root i s], st'))
      = fst acc @ [stepVerdict env git root i s]
        @ map (\<lambda>(j, s). stepVerdict env git root j s) (zip [Suc i ..< Suc i + length ss] ss)"
    by simp
  then show ?case
    unfolding z by (simp add: c)
qed

lemma checkStaleness_per_step:
  assumes "workspaceFolders env = Some (root # others)"
  shows "checkStaleness env ss commit
     = Inr (map (\<lambda>(j, s). stepVerdict env (canUseGit commit (getHeadSha env)) root j s)
              (zip [0 ..< length ss] ss))"
  using assms staleLoop_results [of env "canUseGit commit (getHeadSha env)" "([], emptyLoopState)" root 0 ss]
  by (simp add: checkStaleness_def checkStalenessRun_def cacheConsistent_empty)

lemma symbolResult_index: "stepIndex (symbolResult env doc i step) = i"
  by (simp add: symbolResult_def split: option.splits)

lemma stepVerdict_index: "stepIndex (stepVerdict env git root i step) = i"
proof -
  have g: "\<And>doc m r. gitRemapResult env doc i step m = Inr r \<Longrightarrow> stepIndex r = i"
    using gitRemapResult_ok [of env _ i step] by (metis sum.inject(2))
  show ?thesis
    using g
    by (auto simp: stepVerdict_def freshResult_def missingFileResult_def symbolResult_index
        split: option.splits sum.splits)
qed

lemma stepVerdict_unopenable:
  assumes "openTextDocument env (pathResolve env root (file' step)) = None"
  shows "stepVerdict env git root i step = missingFileResult i step"
  using assms by (simp add: stepVerdict_def)

lemma checkStaleness_no_workspace:
  assumes "workspaceFolders env = None"
  shows "checkStaleness env ss commit = Inr (map noWorkspaceResult [0 ..< length ss])"
  using assms by (simp add: checkStaleness_def checkStalenessRun_def)

text \<open>
  With no workspace at all, or with at least one folder, the check returns one verdict
  per step, the \<open>i\<close>-th carrying index \<open>i\<close>.
\<close>

lemma checkStaleness_total_if_folder:
  assumes "workspaceFolders env \<noteq> Some []"
  shows "\<exists>results. checkStaleness env ss commit = Inr results
           \<and> length results = length ss
           \<and> (\<forall>i < length ss. stepIndex (results ! i) = i)"
proof (cases "workspaceFolders env")
  case None
  then show ?thesis
    by (simp add: checkStaleness_no_workspace noWorkspaceResult_def)
next
  case (Some fs)
  with assms obtain root others where "workspaceFolders env = Some (root # others)"
    by (cases fs) auto
  from checkStaleness_per_step [OF this, of ss commit]
  show ?thesis
    by (simp add: stepVerdict_index)
qed

text \<open>
  C3. The check does throw: with a workspace whose folder list is empty (a list, so
  not \<^verbatim>\<open>undefined\<close>), \<^verbatim>\<open>workspaceFolders[0].uri\<close> is read outside every \<^verbatim>\<open>try\<close> and
  the call fails with a type error, whatever the steps. \<^const>\<open>getWorkspaceRoot\<close> in
  git.ts tests for the empty list and answers \<open>None\<close> there.
\<close>

theorem checkStaleness_throws_on_empty_folder_list:
  "getWorkspaceRoot (example_env\<lparr>workspaceFolders := Some []\<rparr>) = None
   \<and> checkStaleness (example_env\<lparr>workspaceFolders := Some []\<rparr>)
        [example_step ''a.ts'' (1, 3) None] None = Inl TypeError"
  by code_simp

section \<open>Staleness: a matching fingerprint is fresh\<close>

text \<open>
  C4. A step whose stored fingerprint equals the fingerprint of the current text at its
  stored (clamped) range gets the verdict \<open>fresh\<close> from \<^const>\<open>checkStaleness\<close>, whatever
  the walkthrough's revision and the head revision are; the iteration for that step
  returns before the hunk cache is consulted, so the loop state is unchanged.
\<close>

theorem matching_hash_is_fresh:
  assumes ws: "workspaceFolders env = Some (root # others)"
    and i: "i < length ss"
    and doc: "openTextDocument env (pathResolve env root (file' (ss ! i))) = Some doc"
    and m: "checkContentHash env doc (ss ! i) = Inr True"
  shows "(\<exists>results. checkStaleness env ss commit = Inr results
            \<and> length results = length ss
            \<and> results ! i = \<lparr>stepIndex = i, status = Fresh, resolvedLines = None, detail = None\<rparr>)
         \<and> checkStep env git root i (ss ! i) st
            = (\<lparr>stepIndex = i, status = Fresh, resolvedLines = None, detail = None\<rparr>, st)"
proof -
  have v: "\<And>g. stepVerdict env g root i (ss ! i) = freshResult i"
    using doc m by (simp add: stepVerdict_def)
  have "checkStaleness env ss commit
     = Inr (map (\<lambda>(j, s). stepVerdict env (canUseGit commit (getHeadSha env)) root j s)
              (zip [0 ..< length ss] ss))"
    using ws by (rule checkStaleness_per_step)
  moreover have "map (\<lambda>(j, s). stepVerdict env (canUseGit commit (getHeadSha env)) root j s)
              (zip [0 ..< length ss] ss) ! i = freshResult i"
    using i v by simp
  ultimately have a: "\<exists>results. checkStaleness env ss commit = Inr results
            \<and> length results = length ss
            \<and> results ! i = \<lparr>stepIndex = i, status = Fresh, resolvedLines = None, detail = None\<rparr>"
    by (simp add: freshResult_def)
  have b: "checkStep env git root i (ss ! i) st
            = (\<lparr>stepIndex = i, status = Fresh, resolvedLines = None, detail = None\<rparr>, st)"
    using doc m by (simp add: checkStep_def freshResult_def)
  from a b show ?thesis by blast
qed

theorem matching_hash_is_fresh_witness:
  "workspaceFolders example_env = Some [''/ws'']
   \<and> openTextDocument example_env (pathResolve example_env ''/ws'' ''a.ts'')
        = Some (example_doc ''/ws/a.ts'')
   \<and> checkContentHash example_env (example_doc ''/ws/a.ts'')
        (example_step ''a.ts'' (1, 3) (Some ''l1\<newline>l2\<newline>l3'')) = Inr True
   \<and> canUseGit (Some ''rev1'') (getHeadSha example_env) = Some (''rev1'', ''rev2'')
   \<and> checkStaleness example_env [example_step ''a.ts'' (1, 3) (Some ''l1\<newline>l2\<newline>l3'')]
        (Some ''rev1'')
       = Inr [\<lparr>stepIndex = 0, status = Fresh, resolvedLines = None, detail = None\<rparr>]
   \<and> diffCalls (snd (checkStep example_env (Some (''rev1'', ''rev2'')) ''/ws'' 0
        (example_step ''a.ts'' (1, 3) (Some ''l1\<newline>l2\<newline>l3'')) emptyLoopState)) = []"
proof -
  let ?s = "example_step ''a.ts'' (1, 3) (Some ''l1\<newline>l2\<newline>l3'')"
  have ws: "workspaceFolders example_env = Some [''/ws'']"
    by (simp add: example_env_def)
  have i: "0 < length [?s]" by simp
  have doc: "openTextDocument example_env (pathResolve example_env ''/ws'' (file' ([?s] ! 0)))
        = Some (example_doc ''/ws/a.ts'')"
    by (simp add: example_env_def example_step_def)
  have m: "checkContentHash example_env (example_doc ''/ws/a.ts'') ([?s] ! 0) = Inr True"
    by code_simp
  have g: "canUseGit (Some ''rev1'') (getHeadSha example_env) = Some (''rev1'', ''rev2'')"
    by code_simp
  from matching_hash_is_fresh [OF ws i doc m, of "Some ''rev1''" "Some (''rev1'', ''rev2'')" emptyLoopState]
  have "checkStaleness example_env [?s] (Some ''rev1'')
       = Inr [\<lparr>stepIndex = 0, status = Fresh, resolvedLines = None, detail = None\<rparr>]"
    and "diffCalls (snd (checkStep example_env (Some (''rev1'', ''rev2'')) ''/ws'' 0 ?s emptyLoopState)) = []"
    by (auto simp: emptyLoopState_def length_Suc_conv)
  moreover have "openTextDocument example_env (pathResolve example_env ''/ws'' ''a.ts'')
        = Some (example_doc ''/ws/a.ts'')"
    by (simp add: example_env_def)
  moreover have "checkContentHash example_env (example_doc ''/ws/a.ts'') ?s = Inr True"
    using m by simp
  ultimately show ?thesis using ws g by simp
qed

section \<open>Staleness: the symbol fallback\<close>

lemma find_append_first:
  "find P (xs @ ys) = (case find P xs of Some x \<Rightarrow> Some x | None \<Rightarrow> find P ys)"
  by (induction xs) auto

lemma findSymbolByName_preorder:
  "findSymbolByName symbols name = find (\<lambda>s. sym_name s = name) (preorderSymbols symbols)"
  by (induction symbols name rule: findSymbolByName.induct)
     (auto simp: find_append_first split: option.splits)

text \<open>
  C8. A step with a stored fingerprint that no longer matches, for which git gives no
  hunks (git unusable, or no hunks for the file), and with a stored symbol name: the
  declarations of the file are searched depth-first, parents first, for the first one
  with exactly that name. If there is one, the verdict is \<open>drifted\<close> with the range that
  starts at the declaration's line (1-indexed) and spans \<open>lines[1] - lines[0]\<close> more
  lines, and a detail naming the symbol; if there is none, the verdict is \<open>drifted\<close>
  with no range.
\<close>

theorem symbol_fallback_verdict:
  assumes ws: "workspaceFolders env = Some (root # others)"
    and i: "i < length ss"
    and doc: "openTextDocument env (pathResolve env root (file' (ss ! i))) = Some doc"
    and hash: "truthy (contentHash (ss ! i))"
    and mismatch: "checkContentHash env doc (ss ! i) = Inr False"
    and nodiff: "case canUseGit commit (getHeadSha env) of
                   None \<Rightarrow> True
                 | Some (c, h) \<Rightarrow> computeLineMappings env c h (file' (ss ! i)) = []"
    and sym: "symbol (ss ! i) = Some name" and name: "name \<noteq> []"
    and provider: "executeDocumentSymbolProvider env (docUri doc) = ProviderSymbols symbols"
  shows "\<exists>results. checkStaleness env ss commit = Inr results
           \<and> length results = length ss
           \<and> results ! i =
               (case find (\<lambda>s. sym_name s = name) (preorderSymbols symbols) of
                  Some match \<Rightarrow>
                    \<lparr>stepIndex = i, status = Drifted,
                     resolvedLines = Some (sym_startLine match + 1,
                       sym_startLine match + 1 + (snd (lines (ss ! i)) - fst (lines (ss ! i)))),
                     detail = Some (''Lines shifted. Symbol '' @ [CHR 0x22] @ name @ [CHR 0x22]
                       @ '' found at '' @ numberToString (sym_startLine match + 1) @ ''-''
                       @ numberToString (sym_startLine match + 1
                           + (snd (lines (ss ! i)) - fst (lines (ss ! i)))))\<rparr>
                | None \<Rightarrow>
                    \<lparr>stepIndex = i, status = Drifted, resolvedLines = None,
                     detail = Some ''Content hash mismatch. Code may have changed since walkthrough was created.''\<rparr>)"
proof -
  let ?git = "canUseGit commit (getHeadSha env)"
  have v: "stepVerdict env ?git root i (ss ! i) = symbolResult env doc i (ss ! i)"
    using doc hash mismatch nodiff
    by (auto simp: stepVerdict_def split: option.splits)
  have f: "findBySymbol env doc (ss ! i) =
      (case find (\<lambda>s. sym_name s = name) (preorderSymbols symbols) of
         None \<Rightarrow> None
       | Some match \<Rightarrow> Some (sym_startLine match + 1,
            sym_startLine match + 1 + (snd (lines (ss ! i)) - fst (lines (ss ! i)))))"
    using sym name provider
    by (simp add: findBySymbol_def findSymbolByName_preorder Let_def split: option.splits)
  have r: "checkStaleness env ss commit
     = Inr (map (\<lambda>(j, s). stepVerdict env ?git root j s) (zip [0 ..< length ss] ss))"
    using ws by (rule checkStaleness_per_step)
  have n: "map (\<lambda>(j, s). stepVerdict env ?git root j s) (zip [0 ..< length ss] ss) ! i
      = symbolResult env doc i (ss ! i)"
    using i v by simp
  show ?thesis
    unfolding r using n f sym
    by (simp add: symbolResult_def split: option.splits)
qed


theorem symbol_fallback_verdict_witness:
  "workspaceFolders example_env = Some [''/ws'']
   \<and> openTextDocument example_env (pathResolve example_env ''/ws'' ''a.ts'')
        = Some (example_doc ''/ws/a.ts'')
   \<and> checkContentHash example_env (example_doc ''/ws/a.ts'')
        (example_step ''a.ts'' (1, 3) (Some ''zzz'')) = Inr False
   \<and> canUseGit None (getHeadSha example_env) = None
   \<and> find (\<lambda>s. sym_name s = ''foo'') (preorderSymbols example_symbols)
        = Some (DocumentSymbol ''foo'' 3 [])
   \<and> checkStaleness example_env [example_step ''a.ts'' (1, 3) (Some ''zzz'')] None
        = Inr [\<lparr>stepIndex = 0, status = Drifted, resolvedLines = Some (4, 6),
                detail = Some (''Lines shifted. Symbol '' @ [CHR 0x22] @ ''foo'' @ [CHR 0x22]
                  @ '' found at 4-6'')\<rparr>]
   \<and> find (\<lambda>s. sym_name s = ''nope'') (preorderSymbols example_symbols) = None
   \<and> checkStaleness example_env
        [(example_step ''a.ts'' (1, 3) (Some ''zzz''))\<lparr>symbol := Some ''nope''\<rparr>] None
        = Inr [\<lparr>stepIndex = 0, status = Drifted, resolvedLines = None,
                detail = Some ''Content hash mismatch. Code may have changed since walkthrough was created.''\<rparr>]"
proof -
  let ?s = "example_step ''a.ts'' (1, 3) (Some ''zzz'')"
  let ?t = "?s\<lparr>symbol := Some ''nope''\<rparr>"
  have ws: "workspaceFolders example_env = Some [''/ws'']"
    by (simp add: example_env_def)
  have i: "0 < length [?s]" "0 < length [?t]" by simp_all
  have doc: "openTextDocument example_env (pathResolve example_env ''/ws'' (file' ([?s] ! 0)))
        = Some (example_doc ''/ws/a.ts'')"
    by (simp add: example_env_def example_step_def)
  have doc': "openTextDocument example_env (pathResolve example_env ''/ws'' (file' ([?t] ! 0)))
        = Some (example_doc ''/ws/a.ts'')"
    by (simp add: example_env_def example_step_def)
  have hash: "truthy (contentHash ([?s] ! 0))" "truthy (contentHash ([?t] ! 0))"
    by (simp_all add: truthy_def example_step_def)
  have mismatch: "checkContentHash example_env (example_doc ''/ws/a.ts'') ([?s] ! 0) = Inr False"
    by code_simp
  have mismatch': "checkContentHash example_env (example_doc ''/ws/a.ts'') ([?t] ! 0) = Inr False"
    by code_simp
  have g: "canUseGit None (getHeadSha example_env) = None"
    by (simp add: canUseGit_def truthy_def)
  have nodiff: "case canUseGit None (getHeadSha example_env) of
                   None \<Rightarrow> True
                 | Some (c, h) \<Rightarrow> computeLineMappings example_env c h (file' ([?s] ! 0)) = []"
    by (simp add: g)
  have nodiff': "case canUseGit None (getHeadSha example_env) of
                   None \<Rightarrow> True
                 | Some (c, h) \<Rightarrow> computeLineMappings example_env c h (file' ([?t] ! 0)) = []"
    by (simp add: g)
  have sym: "symbol ([?s] ! 0) = Some ''foo''" by (simp add: example_step_def)
  have sym': "symbol ([?t] ! 0) = Some ''nope''" by simp
  have name: "''foo'' \<noteq> []" "''nope'' \<noteq> []" by simp_all
  have provider: "executeDocumentSymbolProvider example_env (docUri (example_doc ''/ws/a.ts''))
      = ProviderSymbols example_symbols"
    by (simp add: example_env_def)
  have f: "find (\<lambda>s. sym_name s = ''foo'') (preorderSymbols example_symbols)
        = Some (DocumentSymbol ''foo'' 3 [])"
    by (simp add: example_symbols_def)
  have f': "find (\<lambda>s. sym_name s = ''nope'') (preorderSymbols example_symbols) = None"
    by (simp add: example_symbols_def)
  have n: "numberToString 4 = ''4''" "numberToString 6 = ''6''"
    by (simp_all add: numberToString_def natToString.simps)
  from symbol_fallback_verdict [OF ws i(1) doc hash(1) mismatch nodiff sym name(1) provider]
  have found: "checkStaleness example_env [?s] None
        = Inr [\<lparr>stepIndex = 0, status = Drifted, resolvedLines = Some (4, 6),
                detail = Some (''Lines shifted. Symbol '' @ [CHR 0x22] @ ''foo'' @ [CHR 0x22]
                  @ '' found at 4-6'')\<rparr>]"
    by (auto simp: f n length_Suc_conv example_step_def)
  from symbol_fallback_verdict [OF ws i(2) doc' hash(2) mismatch' nodiff' sym' name(2) provider]
  have absent: "checkStaleness example_env [?t] None
        = Inr [\<lparr>stepIndex = 0, status = Drifted, resolvedLines = None,
                detail = Some ''Content hash mismatch. Code may have changed since walkthrough was created.''\<rparr>]"
    by (auto simp: f' length_Suc_conv)
  have "openTextDocument example_env (pathResolve example_env ''/ws'' ''a.ts'')
        = Some (example_doc ''/ws/a.ts'')"
    by (simp add: example_env_def)
  moreover have "checkContentHash example_env (example_doc ''/ws/a.ts'') ?s = Inr False"
    using mismatch by simp
  ultimately show ?thesis using ws g f f' found absent by simp
qed

section \<open>Clamping\<close>

text \<open>What the clamping does guarantee: the start is at least 1, the end is in the document.\<close>

lemma clampRange_partial:
  assumes "1 \<le> n" and "clampRange n r = (cs, ce)"
  shows "1 \<le> cs \<and> 1 \<le> ce \<and> ce \<le> n \<and> (cs \<le> ce) = (fst r \<le> n)"
  using assms
  by (auto simp: clampRange_def Let_def split: prod.splits)

text \<open>
  C2. The clamped start is not kept inside the document: the range \<open>(20, 22)\<close> moved
  by the hunk \<open>{10, 2, 10, 5}\<close> is \<open>(23, 25)\<close>, and in a ten-line document it is clamped
  to \<open>(23, 10)\<close>, start beyond the last line and beyond the end. The staleness check
  reports these lines and the repair stores them.
\<close>

theorem clamp_start_past_document_end:
  "remapLineRange 20 22 [example_hunk] = (23, 25)
   \<and> lineCount (example_doc ''/ws/a.ts'') = 10
   \<and> clampRange 10 (23, 25) = (23, 10)
   \<and> checkStaleness example_env [example_step ''a.ts'' (20, 22) (Some ''zzz'')] (Some ''rev1'')
       = Inr [\<lparr>stepIndex = 0, status = Drifted, resolvedLines = Some (23, 10),
               detail = Some ''Git remapped to 23-10, but content also changed''\<rparr>]
   \<and> repairWalkthrough example_env
        \<lparr>uri = ''/ws/.walkthrough/w.json'',
         walkthrough = \<lparr>title = ''t'', description = ''d'', commitSha = Some ''rev1'',
                        steps = [example_step ''a.ts'' (20, 22) (Some ''zzz'')]\<rparr>\<rparr>
       = Inr \<lparr>repaired = True, stepsFixed = 1, stepsUnresolvable = 0,
              repairedWalkthrough =
                \<lparr>title = ''t'', description = ''d'', commitSha = Some ''rev2'',
                 steps = [example_step ''a.ts'' (23, 10) (Some [])]\<rparr>\<rparr>"
  by code_simp

section \<open>Repair theorems\<close>

text \<open>
  The cache is asked before git: a hit makes no call, a miss makes one call and fills
  the key. The call made by the repair names the step's stored file.
\<close>

lemma cachedMappings_hit:
  assumes "mappingsCache st k = Some m"
  shows "cachedMappings env a b k p st = (m, st)"
  using assms by (simp add: cachedMappings_def)

lemma cachedMappings_miss:
  assumes "mappingsCache st k = None"
  shows "fst (cachedMappings env a b k p st) = computeLineMappings env a b p"
    and "mappingsCache (snd (cachedMappings env a b k p st)) k = Some (computeLineMappings env a b p)"
    and "diffCalls (snd (cachedMappings env a b k p st)) = diffCalls st @ [(a, b, p)]"
  using assms by (simp_all add: cachedMappings_def Let_def)

lemma cachedMappings_calls:
  assumes "cachedMappings env a b k p st = (m, st')"
  shows "diffCalls st' = diffCalls st \<or> diffCalls st' = diffCalls st @ [(a, b, p)]"
  using assms by (auto simp: cachedMappings_def Let_def split: option.splits)

lemma repairStep_diff_path:
  assumes "repairStep env oldSha newSha root step st = Inr st'"
  shows "diffCalls st' = diffCalls st
         \<or> diffCalls st' = diffCalls st @ [(oldSha, newSha, file' step)]"
proof (cases "openTextDocument env (pathResolve env root (currentFileOf env oldSha newSha step))")
  case None
  with assms show ?thesis by (auto simp: repairStep_def Let_def)
next
  case (Some doc)
  obtain m st1 where cm: "cachedMappings env oldSha newSha
      (currentFileOf env oldSha newSha step) (file' step) st = (m, st1)"
    by (cases "cachedMappings env oldSha newSha
      (currentFileOf env oldSha newSha step) (file' step) st") auto
  from cachedMappings_calls [OF cm]
  have c: "diffCalls st1 = diffCalls st \<or> diffCalls st1 = diffCalls st @ [(oldSha, newSha, file' step)]" .
  from assms Some cm c show ?thesis
    by (auto simp: repairStep_def Let_def split: sum.splits if_splits prod.splits)
qed

lemma repairStep_returns:
  assumes "1 \<le> snd (lines step)"
  shows "\<exists>st'. repairStep env oldSha newSha root step st = Inr st'"
proof (cases "openTextDocument env (pathResolve env root (currentFileOf env oldSha newSha step))")
  case None
  then show ?thesis by (simp add: repairStep_def Let_def)
next
  case (Some doc)
  have "0 \<le> max 0 (fst (lines step) - 1)" by simp
  moreover have "0 \<le> min (lineCount doc - 1) (snd (lines step) - 1)"
    using assms lineCount_pos [of doc] by simp
  moreover have "min (lineCount doc - 1) (snd (lines step) - 1) < lineCount doc" by simp
  ultimately obtain h where h: "contentHashAt env doc (max 0 (fst (lines step) - 1))
      (min (lineCount doc - 1) (snd (lines step) - 1)) = Inr h"
    using contentHashAt_ok by blast
  obtain m st' where cm: "cachedMappings env oldSha newSha
      (currentFileOf env oldSha newSha step) (file' step) st = (m, st')"
    by (cases "cachedMappings env oldSha newSha
      (currentFileOf env oldSha newSha step) (file' step) st") auto
  obtain cs ce where c: "clampRange (lineCount doc)
      (remapLineRange (fst (lines step)) (snd (lines step)) m) = (cs, ce)"
    by (cases "clampRange (lineCount doc)
      (remapLineRange (fst (lines step)) (snd (lines step)) m)") auto
  from clampRange_bounds [OF c] have "0 \<le> cs - 1" "0 \<le> ce - 1" "ce - 1 < lineCount doc"
    by auto
  from contentHashAt_ok [OF this] obtain h' where
    h': "contentHashAt env doc (cs - 1) (ce - 1) = Inr h'"
    by blast
  from Some h cm c h' show ?thesis
    by (simp add: repairStep_def Let_def)
qed

lemma repairLoop_returns:
  assumes "list_all (\<lambda>s. 1 \<le> snd (lines s)) ss"
  shows "\<exists>st'. repairLoop env oldSha newSha root ss st = Inr st'"
  using assms
proof (induction ss arbitrary: st)
  case Nil
  show ?case by simp
next
  case (Cons s ss)
  from Cons.prems have "1 \<le> snd (lines s)" by simp
  from repairStep_returns [OF this] obtain st1 where
    "repairStep env oldSha newSha root s st = Inr st1" by blast
  moreover from Cons have "\<exists>st'. repairLoop env oldSha newSha root ss st1 = Inr st'" by simp
  ultimately show ?case by simp
qed

lemma getHeadSha_folder:
  assumes "getHeadSha env = Some sha"
  shows "\<exists>root others. workspaceFolders env = Some (root # others)"
  using assms
  by (auto simp: getHeadSha_def getWorkspaceRoot_def split: option.splits list.splits)

lemma cachedMappings_frame:
  assumes "cachedMappings env oldSha newSha k p (st :: RepairState) = (m, st')"
  shows "repairedSteps st' = repairedSteps st \<and> fixedCount st' = fixedCount st
         \<and> unresolvableCount st' = unresolvableCount st"
  using assms
  by (auto simp: cachedMappings_def Let_def split: option.splits)

lemma repairStep_length:
  assumes "repairStep env oldSha newSha root step st = Inr st'"
  shows "length (repairedSteps st') = Suc (length (repairedSteps st))"
proof (cases "openTextDocument env (pathResolve env root (currentFileOf env oldSha newSha step))")
  case None
  with assms show ?thesis by (auto simp: repairStep_def Let_def)
next
  case (Some doc)
  obtain m st1 where cm: "cachedMappings env oldSha newSha
      (currentFileOf env oldSha newSha step) (file' step) st = (m, st1)"
    by (cases "cachedMappings env oldSha newSha
      (currentFileOf env oldSha newSha step) (file' step) st") auto
  from cachedMappings_frame [OF cm] have f: "repairedSteps st1 = repairedSteps st" by simp
  from assms Some cm f show ?thesis
    by (auto simp: repairStep_def Let_def split: sum.splits if_splits prod.splits)
qed

lemma repairLoop_length:
  assumes "repairLoop env oldSha newSha root ss st = Inr st'"
  shows "length (repairedSteps st') = length (repairedSteps st) + length ss"
  using assms
proof (induction ss arbitrary: st)
  case Nil
  then show ?case by simp
next
  case (Cons s ss)
  from Cons.prems obtain st1 where s1: "repairStep env oldSha newSha root s st = Inr st1"
    and l: "repairLoop env oldSha newSha root ss st1 = Inr st'"
    by (auto split: sum.splits)
  from Cons.IH [OF l] repairStep_length [OF s1] show ?case by simp
qed

text \<open>
  C5. When the walkthrough's revision is the head revision, the repair answers
  \<open>repaired = true\<close>, no step fixed, no step unresolvable, and the walkthrough as it
  was given.
\<close>

theorem repair_noop_when_revisions_equal:
  assumes "commitSha (walkthrough wfile) = Some sha"
    and "getHeadSha env = Some sha"
    and "sha \<noteq> []"
  shows "repairWalkthrough env wfile
           = Inr \<lparr>repaired = True, stepsFixed = 0, stepsUnresolvable = 0,
                  repairedWalkthrough = walkthrough wfile\<rparr>"
  using assms by (simp add: repairWalkthrough_def Let_def)

theorem repair_noop_when_revisions_equal_witness:
  "commitSha \<lparr>title = ''t'', description = ''d'', commitSha = Some ''rev2'',
               steps = [example_step ''a.ts'' (20, 22) (Some ''zzz'')]\<rparr> = Some ''rev2''
   \<and> getHeadSha example_env = Some ''rev2''
   \<and> ''rev2'' \<noteq> []
   \<and> repairWalkthrough example_env
        \<lparr>uri = ''/ws/.walkthrough/w.json'',
         walkthrough = \<lparr>title = ''t'', description = ''d'', commitSha = Some ''rev2'',
                        steps = [example_step ''a.ts'' (20, 22) (Some ''zzz'')]\<rparr>\<rparr>
       = Inr \<lparr>repaired = True, stepsFixed = 0, stepsUnresolvable = 0,
              repairedWalkthrough =
                \<lparr>title = ''t'', description = ''d'', commitSha = Some ''rev2'',
                 steps = [example_step ''a.ts'' (20, 22) (Some ''zzz'')]\<rparr>\<rparr>"
proof -
  let ?w = "\<lparr>title = ''t'', description = ''d'', commitSha = Some ''rev2'',
               steps = [example_step ''a.ts'' (20, 22) (Some ''zzz'')]\<rparr>"
  let ?wf = "\<lparr>uri = ''/ws/.walkthrough/w.json'', walkthrough = ?w\<rparr>"
  have c: "commitSha (walkthrough ?wf) = Some ''rev2''" by simp
  have h: "getHeadSha example_env = Some ''rev2''"
    by (simp add: getHeadSha_def getWorkspaceRoot_def example_env_def)
  have n: "''rev2'' \<noteq> []" by simp
  from repair_noop_when_revisions_equal [OF c h n] h show ?thesis by simp
qed

text \<open>
  C6. Past the early returns (a stored revision, a head revision, the two different;
  a head revision implies an open folder), every result the repair returns carries
  the head revision as the walkthrough's revision and as many steps as before, however
  the steps were counted. The repair does return whenever each step's end line is at
  least 1.
\<close>

theorem repair_sets_head_revision:
  assumes old: "commitSha (walkthrough wfile) = Some oldSha"
    and new: "getHeadSha env = Some newSha"
    and ne: "oldSha \<noteq> []" "newSha \<noteq> []"
    and diff: "oldSha \<noteq> newSha"
  shows "(\<exists>root others. workspaceFolders env = Some (root # others))
       \<and> (\<forall>r. repairWalkthrough env wfile = Inr r \<longrightarrow>
             commitSha (repairedWalkthrough r) = Some newSha
             \<and> length (steps (repairedWalkthrough r)) = length (steps (walkthrough wfile)))
       \<and> (list_all (\<lambda>s. 1 \<le> snd (lines s)) (steps (walkthrough wfile)) \<longrightarrow>
             (\<exists>r. repairWalkthrough env wfile = Inr r))"
proof -
  from getHeadSha_folder [OF new] obtain root others where
    ws: "workspaceFolders env = Some (root # others)" by blast
  let ?loop = "repairLoop env oldSha newSha root (steps (walkthrough wfile)) emptyRepairState"
  have unfold: "repairWalkthrough env wfile =
      (case ?loop of
         Inl e \<Rightarrow> Inl e
       | Inr st \<Rightarrow>
           Inr \<lparr>repaired = (fixedCount st > 0 \<or> unresolvableCount st = 0),
                stepsFixed = fixedCount st,
                stepsUnresolvable = unresolvableCount st,
                repairedWalkthrough =
                  (walkthrough wfile)\<lparr>commitSha := Some newSha, steps := repairedSteps st\<rparr>\<rparr>)"
    using old new ne diff ws by (simp add: repairWalkthrough_def Let_def)
  have a: "\<forall>r. repairWalkthrough env wfile = Inr r \<longrightarrow>
             commitSha (repairedWalkthrough r) = Some newSha
             \<and> length (steps (repairedWalkthrough r)) = length (steps (walkthrough wfile))"
  proof (intro allI impI)
    fix r assume r: "repairWalkthrough env wfile = Inr r"
    then obtain st where st: "?loop = Inr st"
      and rr: "repairedWalkthrough r
          = (walkthrough wfile)\<lparr>commitSha := Some newSha, steps := repairedSteps st\<rparr>"
      unfolding unfold by (auto split: sum.splits)
    from repairLoop_length [OF st] have "length (repairedSteps st) = length (steps (walkthrough wfile))"
      by (simp add: emptyRepairState_def)
    with rr show "commitSha (repairedWalkthrough r) = Some newSha
             \<and> length (steps (repairedWalkthrough r)) = length (steps (walkthrough wfile))"
      by simp
  qed
  have b: "list_all (\<lambda>s. 1 \<le> snd (lines s)) (steps (walkthrough wfile)) \<longrightarrow>
             (\<exists>r. repairWalkthrough env wfile = Inr r)"
  proof
    assume "list_all (\<lambda>s. 1 \<le> snd (lines s)) (steps (walkthrough wfile))"
    from repairLoop_returns [OF this] obtain st where "?loop = Inr st" by blast
    then show "\<exists>r. repairWalkthrough env wfile = Inr r"
      unfolding unfold by simp
  qed
  from ws a b show ?thesis by blast
qed

theorem repair_sets_head_revision_witness:
  "getHeadSha example_env = Some ''rev2''
   \<and> ''rev1'' \<noteq> ''rev2''
   \<and> list_all (\<lambda>s. 1 \<le> snd (lines s))
        [example_step ''gone.ts'' (2, 3) (Some ''zzz''), example_step ''c.ts'' (5, 5) None]
   \<and> (\<exists>r. repairWalkthrough example_env
        \<lparr>uri = ''/ws/.walkthrough/w.json'',
         walkthrough = \<lparr>title = ''t'', description = ''d'', commitSha = Some ''rev1'',
                        steps = [example_step ''gone.ts'' (2, 3) (Some ''zzz''),
                                 example_step ''c.ts'' (5, 5) None]\<rparr>\<rparr> = Inr r
          \<and> commitSha (repairedWalkthrough r) = Some ''rev2''
          \<and> repaired r = False \<and> stepsFixed r = 0 \<and> stepsUnresolvable r = 2)"
proof -
  let ?ss = "[example_step ''gone.ts'' (2, 3) (Some ''zzz''), example_step ''c.ts'' (5, 5) None]"
  let ?w = "\<lparr>title = ''t'', description = ''d'', commitSha = Some ''rev1'', steps = ?ss\<rparr>"
  let ?wf = "\<lparr>uri = ''/ws/.walkthrough/w.json'', walkthrough = ?w\<rparr>"
  have old: "commitSha (walkthrough ?wf) = Some ''rev1''" by simp
  have new: "getHeadSha example_env = Some ''rev2''"
    by (simp add: getHeadSha_def getWorkspaceRoot_def example_env_def)
  have ne: "''rev1'' \<noteq> []" "''rev2'' \<noteq> []" by simp_all
  have diff: "''rev1'' \<noteq> ''rev2''" by simp
  have valid: "list_all (\<lambda>s. 1 \<le> snd (lines s)) ?ss" by (simp add: example_step_def)
  have ev: "repairWalkthrough example_env ?wf
      = Inr \<lparr>repaired = False, stepsFixed = 0, stepsUnresolvable = 2,
             repairedWalkthrough =
               \<lparr>title = ''t'', description = ''d'', commitSha = Some ''rev2'', steps = ?ss\<rparr>\<rparr>"
    by code_simp
  from repair_sets_head_revision [OF old new ne diff] valid
  obtain r where r: "repairWalkthrough example_env ?wf = Inr r"
    and c: "commitSha (repairedWalkthrough r) = Some ''rev2''"
    by auto
  from r ev have "repaired r = False \<and> stepsFixed r = 0 \<and> stepsUnresolvable r = 2" by auto
  with r c new diff valid show ?thesis by blast
qed





section \<open>Loader validation theorems\<close>

text \<open>
  C9. The loader's validity check accepts a step whatever the two numbers of its
  \<open>lines\<close> pair are, and a walkthrough made of such steps: the pairs \<open>[5, 2]\<close> and
  \<open>[0, 7]\<close>, which break the data-model invariant \<open>1 \<le> start \<le> end\<close>, are accepted.
\<close>

theorem loader_accepts_unordered_ranges:
  "isValidStep (stepJson f a b sub)
   \<and> isValidWalkthrough (walkthroughJson t d (map (\<lambda>(f, a, b, sub). stepJson f a b sub) (x # xs)))
   \<and> isValidStep (stepJson ''a.ts'' 5 2 ''s'') \<and> \<not> spec_lineRangeInvariant (5, 2)
   \<and> isValidStep (stepJson ''a.ts'' 0 7 ''s'') \<and> \<not> spec_lineRangeInvariant (0, 7)
   \<and> isValidWalkthrough
        (walkthroughJson ''t'' ''d'' [stepJson ''a.ts'' 5 2 ''s'', stepJson ''a.ts'' 0 7 ''s''])"
proof -
  have v: "\<And>f a b sub. isValidStep (stepJson f a b sub)"
    by (simp add: isValidStep_def stepJson_def)
  have "list_all isValidStep (map (\<lambda>(f, a, b, sub). stepJson f a b sub) (x # xs))"
    by (simp add: list_all_iff v split: prod.splits)
  then have w: "isValidWalkthrough
      (walkthroughJson t d (map (\<lambda>(f, a, b, sub). stepJson f a b sub) (x # xs)))"
    by (simp add: isValidWalkthrough_def walkthroughJson_def)
  have w2: "isValidWalkthrough
        (walkthroughJson ''t'' ''d'' [stepJson ''a.ts'' 5 2 ''s'', stepJson ''a.ts'' 0 7 ''s''])"
    by (simp add: isValidWalkthrough_def walkthroughJson_def v)
  show ?thesis using v w w2 by (simp add: spec_lineRangeInvariant_def)
qed

end
